theory Spec2Isabelle
  imports Complex_Main
begin

section \<open>Values of the JavaScript runtime\<close>

text \<open>
  A JavaScript number is an IEEE-754 double. A finite double is a rational number and is
  represented by its exact value; the two zeros are identified (both are falsy).
\<close>

datatype jsnum = Finite rat | PosInfinity | NegInfinity | NaN

text \<open>
  The values \<^verbatim>\<open>response.json()\<close> can resolve to, and \<^verbatim>\<open>undefined\<close>, which reading a
  missing property yields. An object is the list of its own properties.
\<close>

datatype jsval =
    JUndefined
  | JNull
  | JBool bool
  | JNum jsnum
  | JStr string
  | JArr "jsval list"
  | JObj "(string \<times> jsval) list"

datatype js_error = TypeError string | SyntaxError string | DOMException string | Error string

fun nonzero :: "jsnum \<Rightarrow> bool" where
  "nonzero (Finite q) = (q \<noteq> 0)"
| "nonzero PosInfinity = True"
| "nonzero NegInfinity = True"
| "nonzero NaN = False"

text \<open>ToBoolean: what \<^verbatim>\<open>if (v)\<close>, \<^verbatim>\<open>!v\<close> and \<^verbatim>\<open>v || w\<close> test.\<close>

fun truthy :: "jsval \<Rightarrow> bool" where
  "truthy JUndefined = False"
| "truthy JNull = False"
| "truthy (JBool b) = b"
| "truthy (JNum n) = nonzero n"
| "truthy (JStr s) = (s \<noteq> [])"
| "truthy (JArr xs) = True"
| "truthy (JObj kvs) = True"

text \<open>
  Reading \<^verbatim>\<open>v.k\<close>, for the keys the page reads by name from the parsed body (\<^verbatim>\<open>success\<close>,
  \<^verbatim>\<open>error\<close> and the fields of the result): on \<^verbatim>\<open>null\<close> and \<^verbatim>\<open>undefined\<close> it throws a
  TypeError, on an object it is the own property or \<^verbatim>\<open>undefined\<close>; primitives and arrays
  have no property of those names.
\<close>

fun get_prop :: "jsval \<Rightarrow> string \<Rightarrow> js_error + jsval" where
  "get_prop JNull k = Inl (TypeError (''Cannot read properties of null (reading '' @ k @ '')''))"
| "get_prop JUndefined k =
     Inl (TypeError (''Cannot read properties of undefined (reading '' @ k @ '')''))"
| "get_prop (JObj kvs) k = Inr (case map_of kvs k of None \<Rightarrow> JUndefined | Some v \<Rightarrow> v)"
| "get_prop v k = Inr JUndefined"

text \<open>\<^verbatim>\<open>a || b\<close> on values.\<close>

definition js_or :: "jsval \<Rightarrow> jsval \<Rightarrow> jsval" where
  "js_or a b = (if truthy a then a else b)"

section \<open>The browser: files, requests, responses\<close>

record jsfile =
  name :: string
  content_type :: string
  bytes :: "nat list"

datatype form_entry = FileEntry jsfile | TextEntry string

text \<open>
  The arguments of \<^verbatim>\<open>fetch(url, init)\<close>. The page passes \<^verbatim>\<open>method\<close> and \<^verbatim>\<open>body\<close> only;
  \<open>headers\<close> is the \<^verbatim>\<open>headers\<close> member of \<^verbatim>\<open>init\<close>, empty when it is not given.
\<close>

record request =
  url :: string
  http_method :: string
  body :: "(string \<times> form_entry) list"
  headers :: "(string \<times> string) list"

text \<open>
  What the network answers. \<^verbatim>\<open>fetch\<close> rejects, or resolves to a response of some HTTP
  status whose \<^verbatim>\<open>json()\<close> rejects (the body is not JSON) or resolves to the parsed body.
\<close>

datatype response = Response (status: nat) (json: "js_error + jsval")

datatype fetch_result = Rejected js_error | Resolved response

section \<open>The state of the page\<close>

text \<open>The six \<^verbatim>\<open>useState\<close> cells of \<^verbatim>\<open>Home\<close>; \<^verbatim>\<open>null\<close> is \<open>None\<close>.\<close>

record state =
  selectedFile :: "jsfile option"
  previewUrl :: string
  loading :: bool
  results :: "jsval option"
  error :: jsval
  confidence :: jsnum

definition initial :: state where
  "initial = \<lparr>selectedFile = None, previewUrl = '''', loading = False, results = None,
     error = JStr '''', confidence = Finite (1 / 4)\<rparr>"

text \<open>
  A handler is the list of what it does, in program order: the setters it calls and the
  calls it makes to the browser.
\<close>

datatype action =
    SetSelectedFile "jsfile option"
  | SetPreviewUrl string
  | SetLoading bool
  | SetResults "jsval option"
  | SetError jsval
  | SetConfidence jsnum
  | CreateObjectURL jsfile
  | Fetch request
  | ConsoleError js_error

fun apply_action :: "state \<Rightarrow> action \<Rightarrow> state" where
  "apply_action s (SetSelectedFile f) = s\<lparr>selectedFile := f\<rparr>"
| "apply_action s (SetPreviewUrl u) = s\<lparr>previewUrl := u\<rparr>"
| "apply_action s (SetLoading b) = s\<lparr>loading := b\<rparr>"
| "apply_action s (SetResults r) = s\<lparr>results := r\<rparr>"
| "apply_action s (SetError e) = s\<lparr>error := e\<rparr>"
| "apply_action s (SetConfidence c) = s\<lparr>confidence := c\<rparr>"
| "apply_action s (CreateObjectURL f) = s"
| "apply_action s (Fetch r) = s"
| "apply_action s (ConsoleError e) = s"

definition run :: "state \<Rightarrow> action list \<Rightarrow> state" where
  "run s acts = foldl apply_action s acts"

fun requests :: "action list \<Rightarrow> request list" where
  "requests [] = []"
| "requests (Fetch r # acts) = r # requests acts"
| "requests (a # acts) = requests acts"

fun logged :: "action list \<Rightarrow> js_error list" where
  "logged [] = []"
| "logged (ConsoleError e # acts) = e # logged acts"
| "logged (a # acts) = logged acts"

section \<open>handleFileSelect\<close>

text \<open>\<^verbatim>\<open>e.target.files?.[0]\<close>: the file list of an input may be \<^verbatim>\<open>null\<close> or empty.\<close>

fun first_file :: "jsfile list option \<Rightarrow> jsfile option" where
  "first_file None = None"
| "first_file (Some []) = None"
| "first_file (Some (f # fs)) = Some f"

text \<open>
  \<open>objectUrl\<close> is what \<^verbatim>\<open>URL.createObjectURL(file)\<close> returns on this call. A File object
  is truthy.
\<close>

definition handleFileSelect :: "jsfile list option \<Rightarrow> string \<Rightarrow> action list" where
  "handleFileSelect files objectUrl =
     (case first_file files of
        None \<Rightarrow> []
      | Some file \<Rightarrow>
          [SetSelectedFile (Some file), CreateObjectURL file, SetPreviewUrl objectUrl,
           SetResults None, SetError (JStr '''')])"

section \<open>handleDetect\<close>

definition endpoint :: string where
  "endpoint = ''http://localhost:1000/api/detect''"

definition connect_message :: string where
  "connect_message =
     ''Failed to connect to API. Make sure Flask server is running on port 5000''"

text \<open>
  The body of the \<^verbatim>\<open>try\<close> block after the request is issued: the first exception ends it,
  and no setter has been called by then.
\<close>

definition try_body :: "fetch_result \<Rightarrow> js_error + action list" where
  "try_body res =
     (case res of
        Rejected err \<Rightarrow> Inl err
      | Resolved response \<Rightarrow>
          (case json response of
             Inl err \<Rightarrow> Inl err
           | Inr data \<Rightarrow>
               (case get_prop data ''success'' of
                  Inl err \<Rightarrow> Inl err
                | Inr success \<Rightarrow>
                    if truthy success then Inr [SetResults (Some data)]
                    else (case get_prop data ''error'' of
                            Inl err \<Rightarrow> Inl err
                          | Inr e \<Rightarrow> Inr [SetError (js_or e (JStr ''Detection failed''))]))))"

text \<open>What runs once the awaited \<^verbatim>\<open>fetch\<close> has settled: \<^verbatim>\<open>try\<close>, \<^verbatim>\<open>catch\<close>, \<^verbatim>\<open>finally\<close>.\<close>

definition settle :: "fetch_result \<Rightarrow> action list" where
  "settle res =
     (case try_body res of
        Inr acts \<Rightarrow> acts
      | Inl err \<Rightarrow> [SetError (JStr connect_message), ConsoleError err])
     @ [SetLoading False]"

text \<open>What runs before the \<^verbatim>\<open>await\<close>, for the file and the threshold of the current render.\<close>

definition dispatch :: "(jsnum \<Rightarrow> string) \<Rightarrow> jsfile \<Rightarrow> jsnum \<Rightarrow> action list" where
  "dispatch toString file conf =
     (let formData = [(''image'', FileEntry file), (''confidence'', TextEntry (toString conf))]
      in [SetLoading True, SetError (JStr ''''),
          Fetch \<lparr>url = endpoint, http_method = ''POST'', body = formData, headers = []\<rparr>])"

text \<open>
  \<open>toString\<close> is \<^verbatim>\<open>Number.prototype.toString\<close>; \<open>res\<close> is how the request settles, should
  one be made.
\<close>

definition handleDetect :: "(jsnum \<Rightarrow> string) \<Rightarrow> state \<Rightarrow> fetch_result \<Rightarrow> action list" where
  "handleDetect toString s res =
     (case selectedFile s of
        None \<Rightarrow> [SetError (JStr ''Please select an image first'')]
      | Some file \<Rightarrow> dispatch toString file (confidence s) @ settle res)"



text \<open>
  The \<^verbatim>\<open>onChange\<close> of the slider; \<open>parsed\<close> is what \<^verbatim>\<open>parseFloat(e.target.value)\<close> returns.
\<close>

definition handleConfidenceChange :: "jsnum \<Rightarrow> action list" where
  "handleConfidenceChange parsed = [SetConfidence parsed]"

section \<open>Observing a run\<close>

text \<open>The state after each action of a handler, in order.\<close>

fun states :: "state \<Rightarrow> action list \<Rightarrow> state list" where
  "states s [] = []"
| "states s (a # acts) = apply_action s a # states (apply_action s a) acts"


section \<open>Arithmetic on doubles\<close>

text \<open>
  Rounding a rational to the nearest double, ties to even: 53 bits of precision, the
  least exponent -1022 (below it the spacing stays 2^-1074), overflow to infinity from
  2^1024. \<open>exponent_of a\<close> is the integer part of the binary logarithm of a positive \<open>a\<close>.
  \<open>fmul\<close> is the product \<^verbatim>\<open>x * y\<close> of two numbers.
\<close>

fun bit_length :: "nat \<Rightarrow> nat" where
  "bit_length n = (if n = 0 then 0 else Suc (bit_length (n div 2)))"

declare bit_length.simps [simp del]

definition exponent_of :: "rat \<Rightarrow> int" where
  "exponent_of a =
     (let (p, q) = quotient_of a;
          k = int (bit_length (nat p)) - int (bit_length (nat q))
      in if 2 powi k \<le> a then k else k - 1)"

definition round_half_even :: "rat \<Rightarrow> int" where
  "round_half_even y =
     (let f = \<lfloor>y\<rfloor>; d = y - of_int f
      in if d < 1 / 2 then f else if 1 / 2 < d then f + 1 else if even f then f else f + 1)"

definition to_double :: "rat \<Rightarrow> jsnum" where
  "to_double q =
     (if q = 0 then Finite 0
      else
        let a = \<bar>q\<bar>;
            e = max (exponent_of a) (- 1022);
            u = 2 powi (e - 52);
            r = of_int (round_half_even (a / u)) * u
        in if 2 powi 1024 \<le> r then (if q < 0 then NegInfinity else PosInfinity)
           else Finite (if q < 0 then - r else r))"


section \<open>Numbers as text\<close>

text \<open>
  Decimal digits: \<open>digits_of_nat\<close> writes a natural number with no leading zero,
  \<open>nat_of_digits\<close> reads digits back.
\<close>

definition digit_char :: "nat \<Rightarrow> char" where
  "digit_char n = ''0123456789'' ! n"

definition is_digit :: "char \<Rightarrow> bool" where
  "is_digit c = (c \<in> set ''0123456789'')"

definition digit_value :: "char \<Rightarrow> nat" where
  "digit_value c = of_char c - 48"

fun digits_of_nat :: "nat \<Rightarrow> string" where
  "digits_of_nat n =
     (if n < 10 then [digit_char n] else digits_of_nat (n div 10) @ [digit_char (n mod 10)])"

declare digits_of_nat.simps [simp del]

definition nat_of_digits :: "string \<Rightarrow> nat" where
  "nat_of_digits cs = foldl (\<lambda>a c. 10 * a + digit_value c) 0 cs"

text \<open>
  A number \<open>a \<ge> 0\<close> in fixed notation with \<open>f\<close> fraction digits: the digits of the integer
  nearest to \<open>a * 10^f\<close> (the larger one of two), filled with zeros to \<open>f + 1\<close> digits, with a
  point before the last \<open>f\<close>.
\<close>

definition fixed_text :: "rat \<Rightarrow> nat \<Rightarrow> string" where
  "fixed_text a f =
     (let n = nat \<lfloor>a * 10 ^ f + 1 / 2\<rfloor>; m = digits_of_nat n
      in if f = 0 then m
         else
           let m' = (if length m \<le> f then replicate (f + 1 - length m) (CHR ''0'') @ m else m);
               k = length m'
           in take (k - f) m' @ ''.'' @ drop (k - f) m')"

text \<open>
  The number of fraction digits that \<^verbatim>\<open>Number.prototype.toString\<close> prints for a double \<open>a\<close>
  that is not an integer: the least \<open>j \<ge> 1\<close> for which the decimal with \<open>j\<close> fraction digits
  nearest to \<open>a\<close> is read back as \<open>a\<close>. A double of at least 10^-6 is a multiple of 2^-72
  and so has at most 72 fraction digits: the search tries 1 to 71 and settles on 72.
\<close>

definition round_trips :: "rat \<Rightarrow> nat \<Rightarrow> bool" where
  "round_trips a j = (to_double (of_int \<lfloor>a * 10 ^ j + 1 / 2\<rfloor> / 10 ^ j) = Finite a)"

fun find_fraction :: "rat \<Rightarrow> nat \<Rightarrow> nat \<Rightarrow> nat" where
  "find_fraction a j 0 = j"
| "find_fraction a j (Suc fuel) = (if round_trips a j then j else find_fraction a (Suc j) fuel)"

definition fraction_count :: "rat \<Rightarrow> nat" where
  "fraction_count a = find_fraction a 1 71"

text \<open>
  \<open>number_toString\<close> is \<^verbatim>\<open>Number.prototype.toString\<close>: the names of the numbers that are
  not finite; the digits of an integer up to 2^53; for another double from 10^-6 on, the
  shortest decimal that reads back as it, in fixed notation. The numbers printed in
  exponent notation (below 10^-6, from 10^21 on) and the integers above 2^53 are left to
  the parameter \<open>shortest\<close>.
  \<open>toFixed\<close> is \<^verbatim>\<open>Number.prototype.toFixed\<close> for the digit counts the page asks for (0, 1
  and 2): fixed notation below 10^21, and \<open>number_toString\<close> from there on and for the
  numbers that are not finite.
\<close>

definition number_toString :: "(rat \<Rightarrow> string) \<Rightarrow> jsnum \<Rightarrow> string" where
  "number_toString shortest x =
     (case x of
        NaN \<Rightarrow> ''NaN''
      | PosInfinity \<Rightarrow> ''Infinity''
      | NegInfinity \<Rightarrow> ''-Infinity''
      | Finite q \<Rightarrow>
          if of_int \<lfloor>q\<rfloor> = q \<and> \<bar>q\<bar> \<le> 2 ^ 53
          then (if q < 0 then ''-'' else '''') @ digits_of_nat (nat \<bar>\<lfloor>q\<rfloor>\<bar>)
          else if 1 / 10 ^ 6 \<le> \<bar>q\<bar> \<and> \<bar>q\<bar> < 2 ^ 53
          then (if q < 0 then ''-'' else '''') @ fixed_text \<bar>q\<bar> (fraction_count \<bar>q\<bar>)
          else shortest q)"


text \<open>
  Reading a text as a decimal number: an optional minus sign, an integer part with no
  leading zero other than a lone 0, and optionally a point and at least one fraction
  digit. \<open>fraction_digits\<close> counts the digits after the point.
\<close>

definition unsigned_value :: "string \<Rightarrow> rat option" where
  "unsigned_value cs =
     (let ip = takeWhile (\<lambda>c. c \<noteq> CHR ''.'') cs;
          rest = dropWhile (\<lambda>c. c \<noteq> CHR ''.'') cs;
          fp = drop 1 rest
      in if ip \<noteq> [] \<and> list_all is_digit ip \<and> digits_of_nat (nat_of_digits ip) = ip
            \<and> list_all is_digit fp \<and> (rest = [] \<or> fp \<noteq> [])
         then Some (of_nat (nat_of_digits (ip @ fp)) / 10 ^ length fp)
         else None)"

definition decimal_value :: "string \<Rightarrow> rat option" where
  "decimal_value txt =
     (case txt of
        [] \<Rightarrow> None
      | c # cs \<Rightarrow>
          if c = CHR ''-'' then map_option uminus (unsigned_value cs) else unsigned_value txt)"



definition decimal_text_of :: "string \<Rightarrow> jsnum \<Rightarrow> bool" where
  "decimal_text_of txt x =
     (case decimal_value txt of None \<Rightarrow> False | Some v \<Rightarrow> to_double v = x)"

section \<open>The result panel\<close>
































section \<open>Example data\<close>

definition sample_file :: jsfile where
  "sample_file = \<lparr>name = ''sample.jpg'', content_type = ''image/jpeg'', bytes = [255, 216, 255]\<rparr>"

text \<open>
  No example prints a number in exponent notation or multiplies a string, an array or an
  object: the two parameters are never asked.
\<close>

definition shortest_example :: "rat \<Rightarrow> string" where
  "shortest_example q = []"


definition toString_example :: "jsnum \<Rightarrow> string" where
  "toString_example = number_toString shortest_example"

definition body_ok :: jsval where
  "body_ok = JObj [(''success'', JBool True), (''annotated_image'', JStr ''data:image/jpeg;base64,'')]"

definition body_error_empty :: jsval where
  "body_error_empty = JObj [(''success'', JBool False), (''error'', JStr '''')]"

definition body_no_detections :: jsval where
  "body_no_detections = JObj [(''success'', JBool False), (''error'', JStr ''No detections found'')]"

definition failed_to_fetch :: js_error where
  "failed_to_fetch = TypeError ''Failed to fetch''"





text \<open>An image is selected on the fresh page.\<close>

definition selected :: state where
  "selected = run initial (handleFileSelect (Some [sample_file]) ''blob:http://localhost:3000/1'')"





text \<open>
  The slider is moved to 0.4 after the image is selected: \<^verbatim>\<open>parseFloat\<close> returns the double
  nearest to 0.4, which is \<open>threshold_04\<close>.
\<close>

definition threshold_04 :: rat where
  "threshold_04 = 3602879701896397 / 9007199254740992"

definition selected_04 :: state where
  "selected_04 = run selected (handleConfidenceChange (to_double (2 / 5)))"

section \<open>Basic facts\<close>

lemma run_Nil: "run s [] = s"
  by (simp add: run_def)

lemma run_Cons: "run s (a # acts) = run (apply_action s a) acts"
  by (simp add: run_def)

lemma run_append: "run s (xs @ ys) = run (run s xs) ys"
  by (simp add: run_def)

lemmas run_simps = run_Nil run_Cons run_append

text \<open>The three shapes of what runs after the request has settled.\<close>

lemma settle_success:
  assumes "get_prop data ''success'' = Inr v" and "truthy v"
  shows "settle (Resolved (Response st (Inr data))) = [SetResults (Some data), SetLoading False]"
  using assms by (simp add: settle_def try_body_def)

lemma settle_failure:
  assumes "get_prop data ''success'' = Inr v" and "\<not> truthy v"
    and "get_prop data ''error'' = Inr e"
  shows "settle (Resolved (Response st (Inr data)))
         = [SetError (js_or e (JStr ''Detection failed'')), SetLoading False]"
  using assms by (simp add: settle_def try_body_def)

lemma settle_exception:
  assumes "try_body res = Inl err"
  shows "settle res = [SetError (JStr connect_message), ConsoleError err, SetLoading False]"
  using assms by (simp add: settle_def)

lemma try_body_Inr:
  assumes "try_body res = Inr acts"
  shows "(\<exists>data. acts = [SetResults (Some data)]) \<or> (\<exists>e. truthy e \<and> acts = [SetError e])"
  using assms
  by (auto simp: try_body_def js_or_def split: fetch_result.splits sum.splits if_splits)

lemma settle_shape:
  "(\<exists>data. settle res = [SetResults (Some data), SetLoading False])
   \<or> (\<exists>e. truthy e \<and> settle res = [SetError e, SetLoading False])
   \<or> (\<exists>err. settle res = [SetError (JStr connect_message), ConsoleError err, SetLoading False])"
proof (cases "try_body res")
  case (Inl err)
  then show ?thesis by (simp add: settle_exception)
next
  case (Inr acts)
  from try_body_Inr [OF Inr] show ?thesis
    by (auto simp: settle_def Inr)
qed

text \<open>The exceptions of the \<^verbatim>\<open>try\<close> block: a rejected fetch, a body that is not JSON, the body \<^verbatim>\<open>null\<close>.\<close>

lemma try_body_transport:
  "try_body (Rejected err) = Inl err"
  "try_body (Resolved (Response st (Inl err))) = Inl err"
  "try_body (Resolved (Response st (Inr JNull))) \<noteq> Inr acts"
  by (simp_all add: try_body_def)

lemma selected_eq:
  "selected = initial\<lparr>selectedFile := Some sample_file, previewUrl := ''blob:http://localhost:3000/1''\<rparr>"
  by (simp add: selected_def handleFileSelect_def run_simps initial_def)






lemma selected_04_eq: "selected_04 = selected\<lparr>confidence := to_double (2 / 5)\<rparr>"
  by (simp add: selected_04_def handleConfidenceChange_def run_simps)

lemma requests_append: "requests (xs @ ys) = requests xs @ requests ys"
  by (induction xs rule: requests.induct) simp_all

lemma logged_append: "logged (xs @ ys) = logged xs @ logged ys"
  by (induction xs rule: logged.induct) simp_all

lemma requests_settle: "requests (settle res) = []"
  using settle_shape [of res] by auto

lemma results_settle_exception:
  assumes "try_body res = Inl err"
  shows "run s (settle res) = s\<lparr>error := JStr connect_message, loading := False\<rparr>"
  using assms by (simp add: settle_exception run_simps)








section \<open>Running detection with no image selected\<close>

text \<open>
  C2. When no image is selected, \<open>handleDetect\<close> calls one setter only: the error becomes
  exactly "Please select an image first", no request is issued, nothing is logged, and
  every other cell of the state keeps its value.
\<close>

theorem no_image_selected:
  assumes "selectedFile s = None"
  shows "handleDetect toString s res = [SetError (JStr ''Please select an image first'')]
    \<and> requests (handleDetect toString s res) = []
    \<and> logged (handleDetect toString s res) = []
    \<and> run s (handleDetect toString s res) = s\<lparr>error := JStr ''Please select an image first''\<rparr>"
  using assms by (simp add: handleDetect_def run_simps)

theorem no_image_selected_witness:
  "selectedFile initial = None
   \<and> requests (handleDetect toString_example initial (Rejected failed_to_fetch)) = []
   \<and> run initial (handleDetect toString_example initial (Rejected failed_to_fetch))
       = initial\<lparr>error := JStr ''Please select an image first''\<rparr>"
proof -
  have h: "selectedFile initial = None" by (simp add: initial_def)
  show ?thesis using h no_image_selected [OF h] by (simp add: run_simps)
qed

section \<open>A response that reports success\<close>

text \<open>
  C3. When an image is selected and the response's body parses to a value whose
  \<^verbatim>\<open>success\<close> property is truthy, \<open>handleDetect\<close> stores that very value as the result,
  whatever the HTTP status, and the error is the empty string afterwards. The loading
  flag is off again and the other cells keep their values.
\<close>

theorem success_stores_body:
  assumes "selectedFile s = Some file"
    and "get_prop data ''success'' = Inr v" and "truthy v"
  shows "run s (handleDetect toString s (Resolved (Response st (Inr data))))
         = s\<lparr>loading := False, results := Some data, error := JStr ''''\<rparr>"
  using assms by (simp add: handleDetect_def dispatch_def settle_success run_simps)

theorem success_stores_body_witness:
  "selectedFile selected = Some sample_file
   \<and> get_prop body_ok ''success'' = Inr (JBool True) \<and> truthy (JBool True)
   \<and> results (run selected (handleDetect toString_example selected
        (Resolved (Response 200 (Inr body_ok))))) = Some body_ok
   \<and> error (run selected (handleDetect toString_example selected
        (Resolved (Response 200 (Inr body_ok))))) = JStr ''''"
proof -
  have f: "selectedFile selected = Some sample_file" by (simp add: selected_eq)
  have g: "get_prop body_ok ''success'' = Inr (JBool True)" by (simp add: body_ok_def)
  have t: "truthy (JBool True)" by simp
  show ?thesis using f g t success_stores_body [OF f g t, of toString_example 200] by simp
qed

section \<open>A response that reports failure\<close>

text \<open>
  C4, amended. When an image is selected and the body's \<^verbatim>\<open>success\<close> property is falsy or
  missing: if the body's \<^verbatim>\<open>error\<close> property is a non-empty string X, the error becomes X;
  if it is missing, or is the empty string, the error becomes "Detection failed".
\<close>

theorem failure_sets_error:
  assumes "selectedFile s = Some file"
    and "get_prop data ''success'' = Inr v" and "\<not> truthy v"
  shows "(get_prop data ''error'' = Inr (JStr X) \<and> X \<noteq> [] \<longrightarrow>
            error (run s (handleDetect toString s (Resolved (Response st (Inr data))))) = JStr X)
       \<and> (get_prop data ''error'' = Inr JUndefined \<or> get_prop data ''error'' = Inr (JStr '''') \<longrightarrow>
            error (run s (handleDetect toString s (Resolved (Response st (Inr data)))))
            = JStr ''Detection failed'')"
  using assms
  by (auto simp: handleDetect_def dispatch_def settle_failure run_simps js_or_def)

theorem failure_sets_error_witness:
  "selectedFile selected = Some sample_file
   \<and> get_prop body_no_detections ''success'' = Inr (JBool False) \<and> \<not> truthy (JBool False)
   \<and> get_prop body_no_detections ''error'' = Inr (JStr ''No detections found'')
   \<and> error (run selected (handleDetect toString_example selected
        (Resolved (Response 200 (Inr body_no_detections))))) = JStr ''No detections found''
   \<and> get_prop (JObj [(''success'', JBool False)]) ''error'' = Inr JUndefined
   \<and> error (run selected (handleDetect toString_example selected
        (Resolved (Response 200 (Inr (JObj [(''success'', JBool False)])))))) = JStr ''Detection failed''"
proof -
  have f: "selectedFile selected = Some sample_file" by (simp add: selected_eq)
  have g: "get_prop body_no_detections ''success'' = Inr (JBool False)"
    by (simp add: body_no_detections_def)
  have g': "get_prop (JObj [(''success'', JBool False)]) ''success'' = Inr (JBool False)"
    by simp
  have t: "\<not> truthy (JBool False)" by simp
  have e: "get_prop body_no_detections ''error'' = Inr (JStr ''No detections found'')"
    by (simp add: body_no_detections_def)
  have e': "get_prop (JObj [(''success'', JBool False)]) ''error'' = Inr JUndefined"
    by simp
  show ?thesis
    using f g t e e'
      failure_sets_error [OF f g t, of "''No detections found''" toString_example 200]
      failure_sets_error [OF f g' t, of "''x''" toString_example 200]
    by simp
qed

text \<open>
  The claim as written fails for the empty string: the server answers
  \<^verbatim>\<open>{"success": false, "error": ""}\<close> and the page shows "Detection failed".
\<close>

theorem empty_error_counterexample:
  "get_prop body_error_empty ''success'' = Inr (JBool False)
   \<and> get_prop body_error_empty ''error'' = Inr (JStr '''')
   \<and> error (run selected (handleDetect toString_example selected
        (Resolved (Response 200 (Inr body_error_empty))))) = JStr ''Detection failed''
   \<and> JStr ''Detection failed'' \<noteq> JStr ''''"
  by (simp add: body_error_empty_def handleDetect_def dispatch_def settle_def try_body_def
      js_or_def run_simps selected_eq initial_def)

section \<open>A request that fails in transport\<close>

text \<open>
  C5. The diagnostic of a transport failure should name the endpoint the request was sent
  to. Evaluated on a refused connection: the request goes to port 1000 of localhost, the
  error that is set tells the user to look at port 5000, and the exception is logged.
\<close>

theorem connect_message_names_port_5000:
  "map url (requests (handleDetect toString_example selected (Rejected failed_to_fetch)))
     = [''http://localhost:1000/api/detect'']
   \<and> error (run selected (handleDetect toString_example selected (Rejected failed_to_fetch)))
     = JStr ''Failed to connect to API. Make sure Flask server is running on port 5000''
   \<and> logged (handleDetect toString_example selected (Rejected failed_to_fetch))
     = [TypeError ''Failed to fetch'']"
  by (simp add: handleDetect_def dispatch_def settle_def try_body_def endpoint_def
      connect_message_def failed_to_fetch_def run_simps selected_eq initial_def)

section \<open>The loading flag\<close>

text \<open>
  C6. With an image selected, the first action of \<open>handleDetect\<close> turns the loading flag on,
  before the request is issued; the flag is on after every action but the last, and the
  last action, on every path, turns it off. With no image selected \<open>handleDetect\<close> leaves
  the flag as it is, and so does \<open>handleFileSelect\<close>; the flag is off on the fresh page.
\<close>

theorem loading_between_dispatch_and_settlement:
  "(selectedFile s = Some file \<longrightarrow>
      hd (handleDetect toString s res) = SetLoading True
      \<and> map loading (states s (handleDetect toString s res))
          = replicate (length (handleDetect toString s res) - 1) True @ [False]
      \<and> last (handleDetect toString s res) = SetLoading False
      \<and> \<not> loading (run s (handleDetect toString s res)))
   \<and> (selectedFile s = None \<longrightarrow>
      map loading (states s (handleDetect toString s res)) = [loading s])
   \<and> map loading (states s (handleFileSelect files objectUrl))
        = replicate (length (handleFileSelect files objectUrl)) (loading s)
   \<and> \<not> loading initial"
proof -
  have a: "map loading (states s (handleFileSelect files objectUrl))
        = replicate (length (handleFileSelect files objectUrl)) (loading s)"
    by (simp add: handleFileSelect_def split: option.splits)
  have b: "\<not> loading initial"
    by (simp add: initial_def)
  have c: "selectedFile s = None \<Longrightarrow>
      map loading (states s (handleDetect toString s res)) = [loading s]"
    by (simp add: handleDetect_def)
  have d: "hd (handleDetect toString s res) = SetLoading True
      \<and> map loading (states s (handleDetect toString s res))
          = replicate (length (handleDetect toString s res) - 1) True @ [False]
      \<and> last (handleDetect toString s res) = SetLoading False
      \<and> \<not> loading (run s (handleDetect toString s res))"
    if "selectedFile s = Some file"
    using that settle_shape [of res]
    by (auto simp: handleDetect_def dispatch_def run_simps)
  from a b c d show ?thesis by blast
qed

theorem loading_between_dispatch_and_settlement_witness:
  "selectedFile selected = Some sample_file
   \<and> map loading (states selected (handleDetect toString_example selected (Rejected failed_to_fetch)))
       = [True, True, True, True, True, False]
   \<and> selectedFile initial = None
   \<and> map loading (states initial (handleDetect toString_example initial (Rejected failed_to_fetch)))
       = [False]"
proof -
  have f: "selectedFile selected = Some sample_file" by (simp add: selected_eq)
  have g: "selectedFile initial = None" by (simp add: initial_def)
  have n: "length (handleDetect toString_example selected (Rejected failed_to_fetch)) = 6"
    by (simp add: handleDetect_def dispatch_def settle_def try_body_def f)
  have i: "\<not> loading initial" by (simp add: initial_def)
  show ?thesis
    using f g n i
      loading_between_dispatch_and_settlement
        [of selected sample_file toString_example "Rejected failed_to_fetch" None "''''"]
      loading_between_dispatch_and_settlement
        [of initial sample_file toString_example "Rejected failed_to_fetch" None "''''"]
    by (simp add: numeral_eq_Suc)
qed

section \<open>Selecting an image\<close>



section \<open>The HTTP status\<close>

text \<open>
  C10. \<open>handleDetect\<close> does the same whatever the status of the response: a response of
  any status does what the response of status 200 with the same body does. So with an
  image selected, a body whose \<^verbatim>\<open>success\<close> property is truthy is stored as the result even
  when the status is an error status.
\<close>

theorem status_not_examined:
  "handleDetect toString s (Resolved (Response st parsed))
     = handleDetect toString s (Resolved (Response 200 parsed))
   \<and> (selectedFile s = Some file \<and> get_prop data ''success'' = Inr v \<and> truthy v \<longrightarrow>
        results (run s (handleDetect toString s (Resolved (Response st (Inr data))))) = Some data)"
  by (simp add: handleDetect_def dispatch_def settle_def try_body_def run_simps
      split: option.splits)

theorem status_not_examined_witness:
  "selectedFile selected = Some sample_file
   \<and> get_prop body_ok ''success'' = Inr (JBool True) \<and> truthy (JBool True)
   \<and> results (run selected (handleDetect toString_example selected
        (Resolved (Response 500 (Inr body_ok))))) = Some body_ok"
proof -
  have f: "selectedFile selected = Some sample_file" by (simp add: selected_eq)
  have g: "get_prop body_ok ''success'' = Inr (JBool True)" by (simp add: body_ok_def)
  have t: "truthy (JBool True)" by simp
  show ?thesis
    using f g t status_not_examined [of toString_example selected 500 "Inr body_ok"
        sample_file body_ok "JBool True"]
    by blast
qed

section \<open>Facts about doubles\<close>

lemma bit_length_bounds:
  "0 < n \<Longrightarrow> 2 ^ (bit_length n - 1) \<le> n \<and> n < 2 ^ bit_length n"
proof (induction n rule: bit_length.induct)
  case (1 n)
  show ?case
  proof (cases "n div 2 = 0")
    case True
    with "1.prems" have "n = 1" by presburger
    then show ?thesis by (simp add: bit_length.simps)
  next
    case False
    then have pos: "0 < n div 2" by simp
    from "1.prems" have n0: "n \<noteq> 0" by simp
    from "1.IH" [OF n0 pos]
    have lo: "2 ^ (bit_length (n div 2) - 1) \<le> n div 2"
      and hi: "n div 2 < 2 ^ bit_length (n div 2)" by simp_all
    have bl: "bit_length n = Suc (bit_length (n div 2))"
      using n0 by (simp add: bit_length.simps)
    have bp: "0 < bit_length (n div 2)"
      using pos by (simp add: bit_length.simps)
    then obtain m where m: "bit_length (n div 2) = Suc m" by (cases "bit_length (n div 2)") auto
    from lo m have "2 * 2 ^ m \<le> 2 * (n div 2)" by simp
    also have "\<dots> \<le> n" by presburger
    finally have a: "2 ^ (bit_length n - 1) \<le> n" by (simp add: bl m)
    from hi have "Suc (n div 2) \<le> 2 ^ bit_length (n div 2)" by simp
    then have "2 * Suc (n div 2) \<le> 2 * 2 ^ bit_length (n div 2)" by simp
    moreover have "n < 2 * Suc (n div 2)" by presburger
    ultimately have b: "n < 2 ^ bit_length n" by (simp add: bl)
    from a b show ?thesis by simp
  qed
qed

lemma powi_Suc: "(2::rat) powi (k + 1) = 2 * 2 powi k"
  by (simp add: power_int_add)

lemma powi_pred: "(2::rat) powi (k - 1) = 2 powi k / 2"
  by (simp add: power_int_diff)

lemma exponent_of_bounds:
  assumes "0 < a"
  shows "2 powi (exponent_of a) \<le> a \<and> a < 2 powi (exponent_of a + 1)"
proof -
  obtain p q where pq: "quotient_of a = (p, q)" by (cases "quotient_of a")
  have q0: "0 < q" using pq by (rule quotient_of_denom_pos)
  have a: "a = of_int p / of_int q" using pq by (rule quotient_of_div)
  have p0: "0 < p" using assms q0 by (simp add: a zero_less_divide_iff)
  define bp where "bp = bit_length (nat p)"
  define bq where "bq = bit_length (nat q)"
  define k where "k = int bp - int bq"
  from bit_length_bounds [of "nat p"] p0
  have plo: "2 ^ (bp - 1) \<le> nat p" and phi: "nat p < 2 ^ bp" by (simp_all add: bp_def)
  from bit_length_bounds [of "nat q"] q0
  have qlo: "2 ^ (bq - 1) \<le> nat q" and qhi: "nat q < 2 ^ bq" by (simp_all add: bq_def)
  have bp1: "0 < bp" using p0 by (simp add: bp_def bit_length.simps)
  have bq1: "0 < bq" using q0 by (simp add: bq_def bit_length.simps)
  have P: "(of_int p :: rat) = of_nat (nat p)" using p0 by simp
  have Q: "(of_int q :: rat) = of_nat (nat q)" using q0 by simp
  have plo': "(2::rat) ^ (bp - 1) \<le> of_int p"
    unfolding P using plo by (metis of_nat_le_iff of_nat_numeral of_nat_power)
  have phi': "of_int p < (2::rat) ^ bp"
    unfolding P using phi by (metis of_nat_less_iff of_nat_numeral of_nat_power)
  have qlo': "(2::rat) ^ (bq - 1) \<le> of_int q"
    unfolding Q using qlo by (metis of_nat_le_iff of_nat_numeral of_nat_power)
  have qhi': "of_int q < (2::rat) ^ bq"
    unfolding Q using qhi by (metis of_nat_less_iff of_nat_numeral of_nat_power)
  have qpos: "(0::rat) < of_int q" using q0 by simp
  have kk: "(2::rat) powi k = 2 ^ bp / 2 ^ bq"
    by (simp add: k_def power_int_diff)
  have bpS: "(2::rat) ^ bp = 2 * 2 ^ (bp - 1)" using bp1 by (cases bp) auto
  have bqS: "(2::rat) ^ bq = 2 * 2 ^ (bq - 1)" using bq1 by (cases bq) auto
  have upper: "a < 2 powi (k + 1)"
  proof -
    have "a * of_int q = of_int p" using qpos by (simp add: a)
    also have "\<dots> < 2 ^ bp" by (rule phi')
    also have "\<dots> = 2 powi (k + 1) * 2 ^ (bq - 1)"
      by (simp add: powi_Suc kk bqS)
    also have "\<dots> \<le> 2 powi (k + 1) * of_int q"
      using qlo' by (intro mult_left_mono) simp_all
    finally show ?thesis using qpos by simp
  qed
  have lower: "2 powi (k - 1) \<le> a"
  proof -
    have "(2::rat) powi (k - 1) * of_int q \<le> 2 powi (k - 1) * 2 ^ bq"
      using qhi' by (intro mult_left_mono) simp_all
    also have "\<dots> = 2 ^ (bp - 1)"
      by (simp add: powi_pred kk bpS)
    also have "\<dots> \<le> of_int p" by (rule plo')
    also have "\<dots> = a * of_int q" using qpos by (simp add: a)
    finally show ?thesis using qpos by simp
  qed
  have e: "exponent_of a = (if 2 powi k \<le> a then k else k - 1)"
    by (simp add: exponent_of_def pq k_def bp_def bq_def Let_def)
  show ?thesis
  proof (cases "2 powi k \<le> a")
    case True
    then show ?thesis using upper by (simp add: e)
  next
    case False
    then show ?thesis using lower by (simp add: e)
  qed
qed

lemma exponent_of_eqI:
  assumes "2 powi e \<le> a" and "a < 2 powi (e + 1)"
  shows "exponent_of a = e"
proof -
  have pos: "0 < a"
    using assms(1) zero_less_power_int [of "2::rat" e] by linarith
  from exponent_of_bounds [OF pos]
  have lo: "2 powi exponent_of a \<le> a" and hi: "a < 2 powi (exponent_of a + 1)" by simp_all
  have "\<not> exponent_of a < e"
  proof
    assume "exponent_of a < e"
    then have "exponent_of a + 1 \<le> e" by simp
    then have "(2::rat) powi (exponent_of a + 1) \<le> 2 powi e"
      by (intro power_int_increasing) simp_all
    with hi assms(1) show False by linarith
  qed
  moreover have "\<not> e < exponent_of a"
  proof
    assume "e < exponent_of a"
    then have "e + 1 \<le> exponent_of a" by simp
    then have "(2::rat) powi (e + 1) \<le> 2 powi exponent_of a"
      by (intro power_int_increasing) simp_all
    with lo assms(2) show False by linarith
  qed
  ultimately show ?thesis by linarith
qed

lemma round_half_even_numeral:
  "round_half_even (numeral n / numeral d) =
     (let f = (numeral n :: int) div numeral d; r = (numeral n :: int) mod numeral d
      in if 2 * r < numeral d then f else if numeral d < 2 * r then f + 1
         else if even f then f else f + 1)"
proof -
  define N :: int where "N = numeral n"
  define D :: int where "D = numeral d"
  have D0: "0 < D" by (simp add: D_def)
  have fl: "\<lfloor>(of_int N :: rat) / of_int D\<rfloor> = N div D"
    by (rule floor_divide_of_int_eq)
  have N: "N = D * (N div D) + N mod D" by simp
  have "(of_int N :: rat) = of_int D * of_int (N div D) + of_int (N mod D)"
    by (metis N of_int_add of_int_mult)
  then have fr: "(of_int N :: rat) / of_int D - of_int (N div D) = of_int (N mod D) / of_int D"
    using D0 by (simp add: field_simps)
  have c1: "(of_int (N mod D) / of_int D < (1::rat) / 2) = (2 * (N mod D) < D)"
  proof -
    have "(of_int (N mod D) / of_int D < (1::rat) / 2) = ((of_int (2 * (N mod D)) :: rat) < of_int D)"
      using D0 by (simp add: field_simps)
    then show ?thesis by (simp only: of_int_less_iff)
  qed
  have c2: "((1::rat) / 2 < of_int (N mod D) / of_int D) = (D < 2 * (N mod D))"
  proof -
    have "((1::rat) / 2 < of_int (N mod D) / of_int D) = ((of_int D :: rat) < of_int (2 * (N mod D)))"
      using D0 by (simp add: field_simps)
    then show ?thesis by (simp only: of_int_less_iff)
  qed
  have "round_half_even (of_int N / of_int D) =
     (let f = N div D; r = N mod D
      in if 2 * r < D then f else if D < 2 * r then f + 1 else if even f then f else f + 1)"
    unfolding round_half_even_def Let_def fl fr c1 c2 ..
  then show ?thesis unfolding N_def D_def of_int_numeral .
qed

lemma round_half_even_of_int: "round_half_even (of_int n) = n"
  by (simp add: round_half_even_def)

lemma to_double_exponent:
  assumes "2 powi e \<le> \<bar>q\<bar>" and "\<bar>q\<bar> < 2 powi (e + 1)"
  shows "to_double q =
     (let u = 2 powi (max e (- 1022) - 52);
          r = of_int (round_half_even (\<bar>q\<bar> / u)) * u
      in if 2 powi 1024 \<le> r then (if q < 0 then NegInfinity else PosInfinity)
         else Finite (if q < 0 then - r else r))"
proof -
  have "0 < \<bar>q\<bar>"
    using assms(1) zero_less_power_int [of "2::rat" e] by linarith
  then have q0: "q \<noteq> 0" by simp
  have e: "exponent_of \<bar>q\<bar> = e" using assms by (rule exponent_of_eqI)
  show ?thesis unfolding to_double_def Let_def e by (simp only: q0 if_False)
qed

text \<open>Rounding a number between two binades gives a double, and a double rounds to itself.\<close>

lemma round_half_even_ge: "of_int a - 1 / 2 < y \<Longrightarrow> a \<le> round_half_even y"
proof -
  assume a: "of_int a - 1 / 2 < y"
  have f: "of_int \<lfloor>y\<rfloor> \<le> y" "y < of_int \<lfloor>y\<rfloor> + 1" by linarith+
  show ?thesis
  proof (cases "a \<le> \<lfloor>y\<rfloor>")
    case True
    then show ?thesis by (simp add: round_half_even_def Let_def)
  next
    case False
    then have "\<lfloor>y\<rfloor> \<le> a - 1" by simp
    moreover have "a - 1 \<le> \<lfloor>y\<rfloor>"
    proof -
      have "(of_int (a - 1) :: rat) < of_int \<lfloor>y\<rfloor> + 1" using a f by simp
      then have "(of_int (a - 1) :: rat) < of_int (\<lfloor>y\<rfloor> + 1)" by simp
      then have "a - 1 < \<lfloor>y\<rfloor> + 1" by (simp only: of_int_less_iff)
      then show ?thesis by simp
    qed
    ultimately have fl: "\<lfloor>y\<rfloor> = a - 1" by simp
    have "1 / 2 < y - of_int \<lfloor>y\<rfloor>" using a by (simp add: fl)
    then show ?thesis by (simp add: round_half_even_def Let_def fl)
  qed
qed

lemma round_half_even_le: "y < of_int b + 1 / 2 \<Longrightarrow> round_half_even y \<le> b"
proof -
  assume b: "y < of_int b + 1 / 2"
  have f: "of_int \<lfloor>y\<rfloor> \<le> y" "y < of_int \<lfloor>y\<rfloor> + 1" by linarith+
  have "(of_int \<lfloor>y\<rfloor> :: rat) < of_int b + 1" using b f by linarith
  then have "(of_int \<lfloor>y\<rfloor> :: rat) < of_int (b + 1)" by simp
  then have "\<lfloor>y\<rfloor> < b + 1" by (simp only: of_int_less_iff)
  then have le: "\<lfloor>y\<rfloor> \<le> b" by simp
  show ?thesis
  proof (cases "\<lfloor>y\<rfloor> = b")
    case True
    then have "y - of_int \<lfloor>y\<rfloor> < 1 / 2" using b by simp
    then show ?thesis by (simp add: round_half_even_def Let_def True)
  next
    case False
    with le have "\<lfloor>y\<rfloor> + 1 \<le> b" by simp
    then show ?thesis by (simp add: round_half_even_def Let_def)
  qed
qed

lemma to_double_binade:
  assumes lo: "2 powi e \<le> v" and hi: "v < 2 powi (e + 1)" and e: "- 1022 \<le> e" "e < 1023"
  shows "to_double v = Finite (of_int (round_half_even (v * 2 ^ 52 / 2 powi e)) * 2 powi e / 2 ^ 52)"
    and "2 ^ 52 \<le> round_half_even (v * 2 ^ 52 / 2 powi e)"
    and "round_half_even (v * 2 ^ 52 / 2 powi e) \<le> 2 ^ 53"
proof -
  define P :: rat where "P = 2 powi e"
  define N where "N = round_half_even (v * 2 ^ 52 / P)"
  have P: "0 < P" by (simp add: P_def)
  have v: "0 < v" using lo P unfolding P_def by linarith
  have hi': "v < 2 * P" using hi by (simp add: P_def powi_Suc)
  have u: "(2::rat) powi (e - 52) = P / 2 ^ 52"
    by (simp add: P_def power_int_diff)
  have "(of_int (2 ^ 52) :: rat) - 1 / 2 < v * 2 ^ 52 / P"
    using lo P by (simp add: P_def [symmetric] field_simps)
  then show n1: "2 ^ 52 \<le> round_half_even (v * 2 ^ 52 / 2 powi e)"
    unfolding P_def [symmetric] by (rule round_half_even_ge)
  have "v * 2 ^ 52 / P < of_int (2 ^ 53) + 1 / 2"
    using hi' P by (simp add: field_simps)
  then show n2: "round_half_even (v * 2 ^ 52 / 2 powi e) \<le> 2 ^ 53"
    unfolding P_def [symmetric] by (rule round_half_even_le)
  have "(of_int N :: rat) \<le> of_int (2 ^ 53)"
    using n2 unfolding N_def P_def [symmetric] by (simp only: of_int_le_iff)
  then have "of_int N * (P / 2 ^ 52) \<le> 2 * P"
    using P by (simp add: field_simps)
  also have "\<dots> = 2 powi (e + 1)" by (simp add: P_def powi_Suc)
  also have "\<dots> \<le> 2 powi 1023" using e by (intro power_int_increasing) simp_all
  also have "\<dots> < (2::rat) powi 1024" by (intro power_int_strict_increasing) simp_all
  finally have r: "\<not> (2::rat) powi 1024 \<le> of_int N * (P / 2 ^ 52)" by simp
  have m: "max e (- 1022) = e" using e by simp
  have av: "\<bar>v\<bar> = v" using v by simp
  have d: "v / (P / 2 ^ 52) = v * 2 ^ 52 / P" by simp
  have nv: "\<not> v < 0" using v by simp
  from lo hi have "2 powi e \<le> \<bar>v\<bar>" and "\<bar>v\<bar> < 2 powi (e + 1)"
    by (simp_all only: av)
  note td = to_double_exponent [OF this]
  have "to_double v = Finite (of_int N * (P / 2 ^ 52))"
    unfolding td m u av d Let_def N_def [symmetric]
    by (simp only: r nv if_False)
  then show "to_double v
      = Finite (of_int (round_half_even (v * 2 ^ 52 / 2 powi e)) * 2 powi e / 2 ^ 52)"
    by (simp add: N_def P_def)
qed

lemma to_double_fixpoint:
  assumes n: "2 ^ 52 \<le> N" "N \<le> 2 ^ 53" and e: "- 1022 \<le> e" "e < 1023"
  shows "to_double (of_int N * 2 powi e / 2 ^ 52) = Finite (of_int N * 2 powi e / 2 ^ 52)"
proof -
  define P :: rat where "P = 2 powi e"
  have P: "0 < P" by (simp add: P_def)
  have n1: "(2::rat) ^ 52 \<le> of_int N"
  proof -
    have "(of_int (2 ^ 52) :: rat) \<le> of_int N" using n(1) by (simp only: of_int_le_iff)
    then show ?thesis by simp
  qed
  show ?thesis
  proof (cases "N = 2 ^ 53")
    case True
    have "(of_int N :: rat) * 2 powi e / 2 ^ 52 = 2 * 2 powi e"
      by (simp add: True)
    also have "\<dots> = 2 powi (e + 1)" by (rule powi_Suc [symmetric])
    finally have q: "(of_int N :: rat) * 2 powi e / 2 ^ 52 = 2 powi (e + 1)" .
    have e1: "- 1022 \<le> e + 1" "e + 1 < 1024" using e by simp_all
    have lo: "(2::rat) powi (e + 1) \<le> \<bar>2 powi (e + 1)\<bar>" by simp
    have p: "(0::rat) < 2 powi (e + 1)" by simp
    have ap: "\<bar>(2::rat) powi (e + 1)\<bar> = 2 powi (e + 1)"
      using p by (simp only: abs_of_pos)
    have "(2::rat) powi (e + 1 + 1) = 2 * 2 powi (e + 1)" by (rule powi_Suc)
    with p have hi: "\<bar>(2::rat) powi (e + 1)\<bar> < 2 powi (e + 1 + 1)"
      unfolding ap by linarith
    have m: "max (e + 1) (- 1022) = e + 1" using e by simp
    have "(2::rat) powi (e + 1 - 52) = 2 powi (e + 1) / 2 powi 52"
      by (rule power_int_diff) simp
    then have u: "(2::rat) powi (e + 1 - 52) = 2 powi (e + 1) / 2 ^ 52"
      by (simp only: power_int_numeral)
    have d: "(2::rat) powi (e + 1) / (2 powi (e + 1) / 2 ^ 52) = of_int (2 ^ 52)"
      using p by simp
    have b: "(of_int (2 ^ 52) :: rat) * (2 powi (e + 1) / 2 ^ 52) = 2 powi (e + 1)"
      by simp
    have "(2::rat) powi (e + 1) < 2 powi 1024"
      using e1 by (intro power_int_strict_increasing) simp_all
    then have r: "\<not> (2::rat) powi 1024 \<le> 2 powi (e + 1)" by linarith
    have np: "\<not> (2::rat) powi (e + 1) < 0" using p by linarith
    note td = to_double_exponent [OF lo hi]
    have "to_double (2 powi (e + 1)) = Finite (2 powi (e + 1))"
      unfolding td m u ap d round_half_even_of_int b Let_def
      by (simp only: r np if_False)
    then show ?thesis by (simp only: q)
  next
    case False
    with n(2) have "N < 2 ^ 53" by simp
    then have "(of_int N :: rat) < of_int (2 ^ 53)" by (simp only: of_int_less_iff)
    then have n2: "(of_int N :: rat) < 2 ^ 53" by simp
    define q :: rat where "q = of_int N * P / 2 ^ 52"
    have q0: "0 < q" using n1 P by (simp add: q_def)
    have lo: "2 powi e \<le> \<bar>q\<bar>"
      using n1 P by (simp add: q_def P_def [symmetric] field_simps)
    have "of_int N * P < 2 ^ 53 * P" using n2 P by (rule mult_strict_right_mono)
    then have "q < 2 * P" by (simp add: q_def field_simps)
    moreover have "(2::rat) powi (e + 1) = 2 * P" unfolding P_def by (rule powi_Suc)
    ultimately have hi: "\<bar>q\<bar> < 2 powi (e + 1)" using q0 by simp
    have m: "max e (- 1022) = e" using e by simp
    have u: "(2::rat) powi (e - 52) = P / 2 ^ 52"
      by (simp add: P_def power_int_diff)
    have aq: "\<bar>q\<bar> = q" using q0 by simp
    have d: "q / (P / 2 ^ 52) = of_int N" using P by (simp add: q_def)
    have b: "(of_int N :: rat) * (P / 2 ^ 52) = q" by (simp add: q_def)
    have "q < 2 powi (e + 1)" using hi q0 by simp
    also have "\<dots> \<le> 2 powi 1023" using e by (intro power_int_increasing) simp_all
    also have "\<dots> < (2::rat) powi 1024" by (intro power_int_strict_increasing) simp_all
    finally have r: "\<not> (2::rat) powi 1024 \<le> q" by linarith
    have nq: "\<not> q < 0" using q0 by simp
    note td = to_double_exponent [OF lo hi]
    have "to_double q = Finite q"
      unfolding td m u aq d round_half_even_of_int b Let_def
      by (simp only: r nq if_False)
    then show ?thesis by (simp add: q_def P_def)
  qed
qed

text \<open>
  The double nearest to a number from 0.1 to 0.9, the ends of the slider, is a double from
  0.1 up to 1.
\<close>

lemma to_double_slider:
  assumes lo: "1 / 10 \<le> v" and hi: "v \<le> 9 / 10"
  shows "\<exists>q. to_double v = Finite q \<and> to_double q = Finite q \<and> 1 / 10 \<le> q \<and> q < 1"
proof -
  have main: "\<exists>q. to_double v = Finite q \<and> to_double q = Finite q \<and> 1 / 10 \<le> q \<and> q < 1"
    if b: "2 powi e \<le> v" "v < 2 powi (e + 1)" and e: "- 4 \<le> e" "e \<le> - 1"
      and low: "e = - 4 \<Longrightarrow> 7205759403792794 \<le> round_half_even (v * 2 ^ 52 / 2 powi e)"
      and high: "e = - 1 \<Longrightarrow> round_half_even (v * 2 ^ 52 / 2 powi e) \<le> 8106479329266893"
    for e
  proof -
    define N where "N = round_half_even (v * 2 ^ 52 / 2 powi e)"
    define q :: rat where "q = of_int N * 2 powi e / 2 ^ 52"
    have e': "- 1022 \<le> e" "e < 1023" using e by simp_all
    note bin = to_double_binade [OF b e', folded N_def]
    have d: "to_double v = Finite q" using bin(1) by (simp add: q_def)
    have f: "to_double q = Finite q"
      unfolding q_def using bin(2,3) e' by (rule to_double_fixpoint)
    have n1: "(2::rat) ^ 52 \<le> of_int N"
    proof -
      have "(of_int (2 ^ 52) :: rat) \<le> of_int N" using bin(2) by (simp only: of_int_le_iff)
      then show ?thesis by simp
    qed
    have n2: "(of_int N :: rat) \<le> 2 ^ 53"
    proof -
      have "(of_int N :: rat) \<le> of_int (2 ^ 53)" using bin(3) by (simp only: of_int_le_iff)
      then show ?thesis by simp
    qed
    from e consider "e = - 4" | "e = - 3" | "e = - 2" | "e = - 1" by linarith
    then have "1 / 10 \<le> q \<and> q < 1"
    proof cases
      case 1
      have "(of_int 7205759403792794 :: rat) \<le> of_int N"
        using low [OF 1] unfolding N_def [symmetric] by (simp only: of_int_le_iff)
      then have "(7205759403792794 :: rat) \<le> of_int N" by simp
      then show ?thesis using n2 by (simp add: q_def 1 power_int_minus field_simps)
    next
      case 2
      then show ?thesis using n1 n2 by (simp add: q_def power_int_minus field_simps)
    next
      case 3
      then show ?thesis using n1 n2 by (simp add: q_def power_int_minus field_simps)
    next
      case 4
      have "(of_int N :: rat) \<le> of_int 8106479329266893"
        using high [OF 4] unfolding N_def [symmetric] by (simp only: of_int_le_iff)
      then have "(of_int N :: rat) \<le> 8106479329266893" by simp
      then show ?thesis using n1 by (simp add: q_def 4 power_int_minus field_simps)
    qed
    with d f show ?thesis by blast
  qed
  consider "v < 1 / 8" | "1 / 8 \<le> v" "v < 1 / 4" | "1 / 4 \<le> v" "v < 1 / 2" | "1 / 2 \<le> v"
    by linarith
  then show ?thesis
  proof cases
    case 1
    have "(of_int 7205759403792794 :: rat) - 1 / 2 < v * 2 ^ 52 / 2 powi (- 4)"
      using lo by (simp add: power_int_minus field_simps)
    then have "7205759403792794 \<le> round_half_even (v * 2 ^ 52 / 2 powi (- 4))"
      by (rule round_half_even_ge)
    then show ?thesis
      using lo 1 by (intro main [of "- 4"]) (simp_all add: power_int_minus)
  next
    case 2
    then show ?thesis by (intro main [of "- 3"]) (simp_all add: power_int_minus)
  next
    case 3
    then show ?thesis by (intro main [of "- 2"]) (simp_all add: power_int_minus)
  next
    case 4
    have "v * 2 ^ 52 / 2 powi (- 1) < of_int 8106479329266893 + 1 / 2"
      using hi by (simp add: power_int_minus field_simps)
    then have "round_half_even (v * 2 ^ 52 / 2 powi (- 1)) \<le> 8106479329266893"
      by (rule round_half_even_le)
    then show ?thesis
      using hi 4 by (intro main [of "- 1"]) (simp_all add: power_int_minus)
  qed
qed

section \<open>Facts about digits\<close>

lemma digit_char_props:
  assumes "n < 10"
  shows "is_digit (digit_char n)" and "digit_value (digit_char n) = n"
proof -
  from assms have "n \<in> {0, 1, 2, 3, 4, 5, 6, 7, 8, 9}" by auto
  then show "is_digit (digit_char n)" and "digit_value (digit_char n) = n"
    by (auto simp: digit_char_def is_digit_def digit_value_def)
qed

lemma is_digit_not_point: "is_digit c \<Longrightarrow> c \<noteq> CHR ''.'' \<and> c \<noteq> CHR ''-''"
  by (auto simp: is_digit_def)

lemma nat_of_digits_snoc: "nat_of_digits (cs @ [c]) = 10 * nat_of_digits cs + digit_value c"
  by (simp add: nat_of_digits_def)

lemma nat_of_digits_zeros: "nat_of_digits (replicate k (CHR ''0'') @ cs) = nat_of_digits cs"
proof -
  have z: "foldl (\<lambda>a c. 10 * a + digit_value c) 0 (replicate k (CHR ''0'')) = 0"
    by (induction k) (simp_all add: digit_value_def)
  show ?thesis by (simp add: nat_of_digits_def z)
qed

lemma digits_small: "n < 10 \<Longrightarrow> digits_of_nat n = [digit_char n]"
  by (simp add: digits_of_nat.simps)

lemma digits_large:
  "10 \<le> n \<Longrightarrow> digits_of_nat n = digits_of_nat (n div 10) @ [digit_char (n mod 10)]"
  by (subst digits_of_nat.simps) simp

lemma digits_of_nat_value: "nat_of_digits (digits_of_nat n) = n"
proof (induction n rule: digits_of_nat.induct)
  case (1 n)
  show ?case
  proof (cases "n < 10")
    case True
    then show ?thesis
      by (simp add: digits_small nat_of_digits_def digit_char_props)
  next
    case False
    with "1.IH" have "nat_of_digits (digits_of_nat (n div 10)) = n div 10" by simp
    with False show ?thesis
      by (simp add: digits_large nat_of_digits_snoc digit_char_props)
  qed
qed

lemma digits_of_nat_digits: "list_all is_digit (digits_of_nat n)"
proof (induction n rule: digits_of_nat.induct)
  case (1 n)
  show ?case
  proof (cases "n < 10")
    case True
    then show ?thesis by (simp add: digits_small digit_char_props)
  next
    case False
    with "1.IH" have "list_all is_digit (digits_of_nat (n div 10))" by simp
    with False show ?thesis
      by (simp add: digits_large digit_char_props)
  qed
qed

lemma digits_of_nat_nonempty: "digits_of_nat n \<noteq> []"
  by (subst digits_of_nat.simps) simp

lemma is_digit_zero: "is_digit (CHR ''0'')"
  by (simp add: is_digit_def)

lemma digits_of_nat_canonical: "digits_of_nat (nat_of_digits (digits_of_nat n)) = digits_of_nat n"
  by (simp add: digits_of_nat_value)

text \<open>The leading digits of a number are the digits of its quotient by a power of ten.\<close>

lemma take_digits_of_nat:
  "f < length (digits_of_nat n) \<Longrightarrow>
   take (length (digits_of_nat n) - f) (digits_of_nat n) = digits_of_nat (n div 10 ^ f)"
proof (induction f arbitrary: n)
  case 0
  then show ?case by simp
next
  case (Suc f)
  have big: "10 \<le> n"
  proof (rule ccontr)
    assume "\<not> 10 \<le> n"
    then have "length (digits_of_nat n) = 1" by (simp add: digits_small)
    with Suc.prems show False by simp
  qed
  define m where "m = digits_of_nat (n div 10)"
  have d: "digits_of_nat n = m @ [digit_char (n mod 10)]"
    using big by (simp add: digits_large m_def)
  have fm: "f < length m" using Suc.prems by (simp add: d)
  have "take (length (digits_of_nat n) - Suc f) (digits_of_nat n) = take (length m - f) m"
    by (simp add: d)
  also have "\<dots> = digits_of_nat (n div 10 div 10 ^ f)"
    using Suc.IH [of "n div 10"] fm by (simp add: m_def)
  also have "n div 10 div 10 ^ f = n div 10 ^ Suc f"
    by (simp add: div_mult2_eq)
  finally show ?case .
qed

text \<open>The shape of a number in fixed notation.\<close>

lemma fixed_text_shape:
  "\<exists>ip fp. fixed_text a f = ip @ (if f = 0 then [] else CHR ''.'' # fp)
          \<and> ip \<noteq> [] \<and> list_all is_digit ip \<and> digits_of_nat (nat_of_digits ip) = ip
          \<and> list_all is_digit fp \<and> length fp = f
          \<and> nat_of_digits (ip @ fp) = nat \<lfloor>a * 10 ^ f + 1 / 2\<rfloor>"
proof -
  define n where "n = nat \<lfloor>a * 10 ^ f + 1 / 2\<rfloor>"
  define m where "m = digits_of_nat n"
  define m' where "m' = (if length m \<le> f then replicate (f + 1 - length m) (CHR ''0'') @ m else m)"
  have md: "list_all is_digit m" and mv: "nat_of_digits m = n" and mn: "m \<noteq> []"
    by (simp_all add: m_def digits_of_nat_digits digits_of_nat_value digits_of_nat_nonempty)
  have m'd: "list_all is_digit m'"
    using md by (simp add: m'_def is_digit_zero list_all_iff)
  have m'v: "nat_of_digits m' = n"
    using mv by (simp add: m'_def nat_of_digits_zeros)
  have m'l: "f < length m'"
    by (simp add: m'_def)
  show ?thesis
  proof (cases "f = 0")
    case True
    have "fixed_text a f = m"
      using True by (simp add: fixed_text_def Let_def m_def n_def)
    moreover have "digits_of_nat (nat_of_digits m) = m"
      by (simp add: m_def digits_of_nat_value)
    ultimately show ?thesis
      using True md mv mn by (intro exI [of _ m] exI [of _ "[]"]) (simp add: n_def)
  next
    case False
    define ip where "ip = take (length m' - f) m'"
    define fp where "fp = drop (length m' - f) m'"
    have eq: "fixed_text a f = ip @ CHR ''.'' # fp"
      using False by (simp add: fixed_text_def Let_def ip_def fp_def m'_def m_def n_def)
    have cat: "ip @ fp = m'" by (simp add: ip_def fp_def)
    have ipn: "ip \<noteq> []" using m'l by (auto simp: ip_def)
    have fpl: "length fp = f" using m'l by (simp add: fp_def)
    have ipd: "list_all is_digit ip" and fpd: "list_all is_digit fp"
      using m'd by (auto simp: ip_def fp_def list_all_iff dest: in_set_takeD in_set_dropD)
    have can: "digits_of_nat (nat_of_digits ip) = ip"
    proof (cases "length m \<le> f")
      case True
      then have "m' = replicate (f + 1 - length m) (CHR ''0'') @ m" and "length m' = f + 1"
        by (simp_all add: m'_def)
      moreover from True have "f + 1 - length m = Suc (f - length m)" by simp
      ultimately have "ip = [CHR ''0'']" by (simp add: ip_def)
      then show ?thesis
        by (simp add: nat_of_digits_def digit_value_def digits_small digit_char_def)
    next
      case False
      then have "m' = m" and "f < length (digits_of_nat n)" by (simp_all add: m'_def m_def)
      then have "ip = digits_of_nat (n div 10 ^ f)"
        using take_digits_of_nat [of f n] by (simp add: ip_def m_def)
      then show ?thesis by (simp add: digits_of_nat_value)
    qed
    from eq cat ipn fpl ipd fpd m'v can False show ?thesis
      by (intro exI [of _ ip] exI [of _ fp]) (simp add: n_def)
  qed
qed

lemma unsigned_value_shape:
  assumes "ip \<noteq> []" and "list_all is_digit ip" and "digits_of_nat (nat_of_digits ip) = ip"
    and "list_all is_digit fp" and "length fp = f"
  shows "unsigned_value (ip @ (if f = 0 then [] else CHR ''.'' # fp))
           = Some (of_nat (nat_of_digits (ip @ fp)) / 10 ^ f)"
proof -
  define rest where "rest = (if f = 0 then [] else CHR ''.'' # fp)"
  have ipP: "\<And>c. c \<in> set ip \<Longrightarrow> c \<noteq> CHR ''.''"
    using assms(2) by (auto simp: list_all_iff dest: is_digit_not_point)
  have tw: "takeWhile (\<lambda>c. c \<noteq> CHR ''.'') (ip @ rest) = ip"
    using ipP by (simp add: takeWhile_append2 rest_def)
  have dw: "dropWhile (\<lambda>c. c \<noteq> CHR ''.'') (ip @ rest) = rest"
    using ipP by (simp add: dropWhile_append2 rest_def)
  have fp0: "f = 0 \<Longrightarrow> fp = []" using assms(5) by simp
  have dr: "drop 1 rest = fp" using fp0 by (simp add: rest_def)
  have ok: "rest = [] \<or> fp \<noteq> []" using assms(5) by (auto simp: rest_def)
  have "unsigned_value (ip @ rest) = Some (of_nat (nat_of_digits (ip @ fp)) / 10 ^ length fp)"
    unfolding unsigned_value_def Let_def tw dw dr using assms(1-4) ok
    by (simp only: simp_thms if_True)
  then show ?thesis by (simp only: rest_def assms(5))
qed

text \<open>A number in fixed notation, read back.\<close>

lemma fixed_text_value:
  "unsigned_value (fixed_text a f) = Some (of_nat (nat \<lfloor>a * 10 ^ f + 1 / 2\<rfloor>) / 10 ^ f)"
proof -
  from fixed_text_shape [of a f] obtain ip fp where
    eq: "fixed_text a f = ip @ (if f = 0 then [] else CHR ''.'' # fp)"
    and ip: "ip \<noteq> []" "list_all is_digit ip" "digits_of_nat (nat_of_digits ip) = ip"
    and fp: "list_all is_digit fp" "length fp = f"
    and v: "nat_of_digits (ip @ fp) = nat \<lfloor>a * 10 ^ f + 1 / 2\<rfloor>"
    by blast
  show ?thesis
    unfolding eq using unsigned_value_shape [OF ip fp] by (simp add: v)
qed

lemma fixed_text_head: "\<exists>c cs. fixed_text a f = c # cs \<and> is_digit c"
proof -
  from fixed_text_shape [of a f] obtain ip fp where
    eq: "fixed_text a f = ip @ (if f = 0 then [] else CHR ''.'' # fp)"
    and ip: "ip \<noteq> []" "list_all is_digit ip"
    by blast
  then obtain c cs where "ip = c # cs" by (cases ip) auto
  with eq ip show ?thesis by auto
qed

lemma fixed_text_decimal:
  "decimal_value (fixed_text a f) = Some (of_nat (nat \<lfloor>a * 10 ^ f + 1 / 2\<rfloor>) / 10 ^ f)"
  "decimal_value (CHR ''-'' # fixed_text a f)
     = Some (- (of_nat (nat \<lfloor>a * 10 ^ f + 1 / 2\<rfloor>) / 10 ^ f))"
proof -
  from fixed_text_head [of a f] obtain c cs where
    h: "fixed_text a f = c # cs" and c: "is_digit c" by blast
  have "c \<noteq> CHR ''-''" using c by (simp add: is_digit_not_point)
  then have "decimal_value (fixed_text a f) = unsigned_value (fixed_text a f)"
    by (simp add: decimal_value_def h)
  then show "decimal_value (fixed_text a f)
      = Some (of_nat (nat \<lfloor>a * 10 ^ f + 1 / 2\<rfloor>) / 10 ^ f)"
    by (simp add: fixed_text_value)
  show "decimal_value (CHR ''-'' # fixed_text a f)
     = Some (- (of_nat (nat \<lfloor>a * 10 ^ f + 1 / 2\<rfloor>) / 10 ^ f))"
    by (simp add: decimal_value_def fixed_text_value)
qed




section \<open>Facts about the text of a double\<close>

lemma find_fraction_finds:
  "round_trips a J \<Longrightarrow> j \<le> J \<Longrightarrow> J \<le> j + fuel \<Longrightarrow> round_trips a (find_fraction a j fuel)"
proof (induction fuel arbitrary: j)
  case 0
  then show ?case by simp
next
  case (Suc fuel)
  show ?case
  proof (cases "round_trips a j")
    case True
    then show ?thesis by simp
  next
    case False
    with Suc.prems(1) have "j \<noteq> J" by auto
    with Suc.prems have "Suc j \<le> J" and "J \<le> Suc j + fuel" by simp_all
    with Suc.IH [OF Suc.prems(1)] False show ?thesis by simp
  qed
qed

lemma find_fraction_hit: "round_trips a j \<Longrightarrow> 0 < fuel \<Longrightarrow> find_fraction a j fuel = j"
  by (cases fuel) simp_all

lemma find_fraction_miss:
  "\<not> round_trips a j \<Longrightarrow> 0 < fuel \<Longrightarrow>
   find_fraction a j fuel = find_fraction a (Suc j) (fuel - 1)"
  by (cases fuel) simp_all

text \<open>A double from 0.1 up to 1 is a multiple of 2^-56, so it has 56 fraction digits at most.\<close>

lemma double_below_one_exact:
  assumes d: "to_double q = Finite q" and lo: "1 / 10 \<le> q" and hi: "q < 1"
  shows "round_trips q 56"
proof -
  have pos: "0 < q" using lo by simp
  define e where "e = exponent_of q"
  from exponent_of_bounds [OF pos]
  have b1: "2 powi e \<le> q" and b2: "q < 2 powi (e + 1)" by (simp_all add: e_def)
  have e_hi: "e \<le> - 1"
  proof (rule ccontr)
    assume "\<not> e \<le> - 1"
    then have "0 \<le> e" by simp
    then have "(2::rat) powi 0 \<le> 2 powi e" by (intro power_int_increasing) simp_all
    with b1 hi show False by simp
  qed
  have e_lo: "- 4 \<le> e"
  proof (rule ccontr)
    assume "\<not> - 4 \<le> e"
    then have "e + 1 \<le> - 4" by simp
    then have "(2::rat) powi (e + 1) \<le> 2 powi (- 4)" by (intro power_int_increasing) simp_all
    with b2 lo show False by simp
  qed
  have m: "max e (- 1022) = e" using e_lo by simp
  define N where "N = round_half_even (q / 2 powi (e - 52))"
  have aq: "\<bar>q\<bar> = q" using pos by simp
  from to_double_exponent [of e q] b1 b2
  have "to_double q =
     (if (2::rat) powi 1024 \<le> of_int N * 2 powi (e - 52) then PosInfinity
      else Finite (of_int N * 2 powi (e - 52)))"
    using pos by (simp add: aq m Let_def N_def)
  with d have q: "q = of_int N * 2 powi (e - 52)"
    by (simp split: if_splits)
  define k where "k = nat (e + 4)"
  have ek: "e - 52 = int k - 56" using e_lo by (simp add: k_def)
  have "(2::rat) powi (e - 52) * 2 ^ 56 = 2 ^ k"
    unfolding ek by (simp add: power_int_diff)
  then have "q * 2 ^ 56 = of_int N * 2 ^ k"
    by (subst q) (simp add: mult.assoc)
  then have "q * 10 ^ 56 = of_int N * 2 ^ k * 5 ^ 56"
  proof -
    assume a: "q * 2 ^ 56 = of_int N * 2 ^ k"
    have "(10::rat) ^ 56 = 2 ^ 56 * 5 ^ 56"
      by (simp flip: power_mult_distrib)
    then have "q * 10 ^ 56 = q * 2 ^ 56 * 5 ^ 56" by simp
    with a show ?thesis by simp
  qed
  define M where "M = N * 2 ^ k * 5 ^ 56"
  then have int: "q * 10 ^ 56 = of_int M"
    using \<open>q * 10 ^ 56 = of_int N * 2 ^ k * 5 ^ 56\<close> by simp
  have fl: "\<lfloor>(of_int M :: rat) + 1 / 2\<rfloor> = M"
    by (rule floor_unique) simp_all
  have "of_int \<lfloor>q * 10 ^ 56 + 1 / 2\<rfloor> / 10 ^ 56 = q"
    unfolding int fl using int by (simp add: field_simps)
  then show ?thesis
    by (simp add: round_trips_def d)
qed

text \<open>
  So \<^verbatim>\<open>toString\<close> of such a double is decimal text: a decimal number in fixed notation that
  is read back as the double itself.
\<close>

lemma number_toString_below_one:
  assumes d: "to_double q = Finite q" and lo: "1 / 10 \<le> q" and hi: "q < 1"
  shows "number_toString sh (Finite q) = fixed_text q (fraction_count q)"
    and "round_trips q (fraction_count q)"
    and "decimal_text_of (number_toString sh (Finite q)) (Finite q)"
proof -
  have fl: "\<lfloor>q\<rfloor> = 0" using lo hi by (simp add: floor_eq_iff)
  have nz: "q \<noteq> 0" using lo by auto
  have a: "\<bar>q\<bar> = q" using lo by simp
  have r1: "(1::rat) / 10 ^ 6 \<le> q" using lo by simp
  have r2: "q < 2 ^ 53" using hi by simp
  show t: "number_toString sh (Finite q) = fixed_text q (fraction_count q)"
    using nz lo r1 r2 by (simp add: number_toString_def fl a)
  show rt: "round_trips q (fraction_count q)"
    unfolding fraction_count_def
    by (rule find_fraction_finds [OF double_below_one_exact [OF d lo hi]]) simp_all
  have pos: "0 \<le> \<lfloor>q * 10 ^ fraction_count q + 1 / 2\<rfloor>" using lo by simp
  have "to_double (of_nat (nat \<lfloor>q * 10 ^ fraction_count q + 1 / 2\<rfloor>) / 10 ^ fraction_count q)
      = Finite q"
    using rt pos by (simp add: round_trips_def)
  then show "decimal_text_of (number_toString sh (Finite q)) (Finite q)"
    by (simp add: decimal_text_of_def t fixed_text_decimal)
qed

section \<open>Facts about the result panel\<close>































section \<open>The examples evaluated\<close>

lemma floor_numeral_div: "\<lfloor>(numeral a :: rat) / numeral b\<rfloor> = numeral a div numeral b"
  using floor_divide_of_int_eq [of "numeral a" "numeral b", where ?'a = rat] by simp

lemma round_half_even_whole: "round_half_even (numeral n) = numeral n"
  using round_half_even_of_int [of "numeral n"] by simp








text \<open>0.4, 0.25 and 0.3 as doubles, and the texts of the first two.\<close>

lemma double_04: "to_double (2 / 5) = Finite threshold_04"
  unfolding threshold_04_def
  by (subst to_double_exponent [where e = "- 2"])
    (simp_all add: round_half_even_numeral Let_def)

lemma threshold_04_double: "to_double threshold_04 = Finite threshold_04"
  unfolding threshold_04_def
  by (subst to_double_exponent [where e = "- 2"])
    (simp_all add: round_half_even_whole Let_def)

lemma double_025: "to_double (1 / 4) = Finite (1 / 4)"
  by (subst to_double_exponent [where e = "- 2"])
    (simp_all add: round_half_even_whole Let_def)

lemma double_03: "to_double (3 / 10) = Finite (5404319552844595 / 18014398509481984)"
  by (subst to_double_exponent [where e = "- 2"])
    (simp_all add: round_half_even_numeral Let_def)

lemma threshold_04_range: "1 / 10 \<le> threshold_04" "threshold_04 < 1"
  by (simp_all add: threshold_04_def)

lemma fraction_count_04: "fraction_count threshold_04 = 1"
proof -
  have "\<lfloor>threshold_04 * 10 ^ 1 + 1 / 2\<rfloor> = 4"
    by (simp add: threshold_04_def floor_eq_iff)
  then have "round_trips threshold_04 1"
    by (simp add: round_trips_def double_04)
  then show ?thesis
    unfolding fraction_count_def by (rule find_fraction_hit) simp
qed

lemma fixed_text_04: "fixed_text threshold_04 (Suc 0) = ''0.4''"
proof -
  have fl: "\<lfloor>threshold_04 * 10 ^ Suc 0 + 1 / 2\<rfloor> = 4"
    by (simp add: threshold_04_def floor_eq_iff)
  show ?thesis
    unfolding fixed_text_def fl by (simp add: digits_small digit_char_def)
qed

lemma number_toString_04: "number_toString sh (Finite threshold_04) = ''0.4''"
  using number_toString_below_one(1) [OF threshold_04_double threshold_04_range, of sh]
  by (simp add: fraction_count_04 fixed_text_04)

lemma fraction_count_025: "fraction_count (1 / 4) = 2"
proof -
  have f1: "\<lfloor>(1::rat) / 4 * 10 ^ 1 + 1 / 2\<rfloor> = 3" by (simp add: floor_eq_iff)
  have f2: "\<lfloor>(1::rat) / 4 * 10 ^ 2 + 1 / 2\<rfloor> = 25" by (simp add: floor_eq_iff)
  have n1: "\<not> round_trips (1 / 4) 1"
    by (simp add: round_trips_def f1 double_03)
  have n2: "round_trips (1 / 4) 2"
    by (simp add: round_trips_def floor_numeral_div double_025)
  have "find_fraction (1 / 4) 1 71 = find_fraction (1 / 4) 2 70"
    using find_fraction_miss [OF n1, of 71] by (simp add: numeral_2_eq_2)
  also have "\<dots> = 2"
    using n2 by (rule find_fraction_hit) simp
  finally show ?thesis by (simp add: fraction_count_def)
qed

lemma fixed_text_025: "fixed_text (1 / 4) 2 = ''0.25''"
proof -
  have fl: "\<lfloor>(1::rat) / 4 * 10 ^ 2 + 1 / 2\<rfloor> = 25" by (simp add: floor_eq_iff)
  show ?thesis
    unfolding fixed_text_def fl by (simp add: digits_small digits_large digit_char_def)
qed

lemma number_toString_025: "number_toString sh (Finite (1 / 4)) = ''0.25''"
  using number_toString_below_one(1) [OF double_025, of sh]
  by (simp add: fraction_count_025 fixed_text_025)

lemma decimal_value_025: "decimal_value ''0.25'' = Some (1 / 4)"
  by (simp add: decimal_value_def unsigned_value_def is_digit_def nat_of_digits_def
      digit_value_def digits_small digit_char_def)

lemma decimal_value_04: "decimal_value ''0.4'' = Some (2 / 5)"
  by (simp add: decimal_value_def unsigned_value_def is_digit_def nat_of_digits_def
      digit_value_def digits_small digit_char_def)






section \<open>The request\<close>

text \<open>
  C7. \<open>handleDetect\<close>, with \<^verbatim>\<open>Number.prototype.toString\<close> for the threshold, issues no
  request when no image is selected, and otherwise exactly one: a POST to the fixed URL
  \<^verbatim>\<open>http://localhost:1000/api/detect\<close>, whose form data has two entries, the selected file
  under \<^verbatim>\<open>image\<close> and the text of the threshold under \<^verbatim>\<open>confidence\<close>, in this order, and
  with no headers given. For a threshold that is a double from 0.1 up to 1 that text is
  decimal text: the threshold in fixed notation, digits with a point, which is read back
  as the threshold itself. The threshold is such a double: it is 0.25 at first and then
  what \<^verbatim>\<open>parseFloat\<close> reads from the slider, the double nearest to a number between the
  ends 0.1 and 0.9 of the slider.
\<close>

theorem request_shape:
  "requests (handleDetect (number_toString shortest) s res) =
     (case selectedFile s of
        None \<Rightarrow> []
      | Some file \<Rightarrow>
          [\<lparr>url = ''http://localhost:1000'' @ ''/api/detect'', http_method = ''POST'',
            body = [(''image'', FileEntry file),
                    (''confidence'', TextEntry (number_toString shortest (confidence s)))],
            headers = []\<rparr>])
   \<and> (confidence s = Finite q \<and> to_double q = Finite q \<and> 1 / 10 \<le> q \<and> q < 1 \<longrightarrow>
        number_toString shortest (confidence s) = fixed_text q (fraction_count q)
        \<and> decimal_text_of (number_toString shortest (confidence s)) (confidence s))
   \<and> (confidence s = to_double v \<and> 1 / 10 \<le> v \<and> v \<le> 9 / 10 \<longrightarrow>
        decimal_text_of (number_toString shortest (confidence s)) (confidence s))"
proof -
  have a: "requests (handleDetect (number_toString shortest) s res) =
     (case selectedFile s of
        None \<Rightarrow> []
      | Some file \<Rightarrow>
          [\<lparr>url = ''http://localhost:1000'' @ ''/api/detect'', http_method = ''POST'',
            body = [(''image'', FileEntry file),
                    (''confidence'', TextEntry (number_toString shortest (confidence s)))],
            headers = []\<rparr>])"
    by (simp add: handleDetect_def dispatch_def endpoint_def requests_append requests_settle
        split: option.splits)
  have b: "number_toString shortest (confidence s) = fixed_text x (fraction_count x)
        \<and> decimal_text_of (number_toString shortest (confidence s)) (confidence s)"
    if "confidence s = Finite x" and "to_double x = Finite x" and "1 / 10 \<le> x" and "x < 1"
    for x
    using number_toString_below_one(1) [OF that(2-4), of shortest]
      number_toString_below_one(3) [OF that(2-4), of shortest]
    by (simp add: that(1))
  have c: "decimal_text_of (number_toString shortest (confidence s)) (confidence s)"
    if "confidence s = to_double v" and "1 / 10 \<le> v" and "v \<le> 9 / 10"
  proof -
    from to_double_slider [OF that(2,3)] obtain x where
      x: "to_double v = Finite x" "to_double x = Finite x" "1 / 10 \<le> x" "x < 1"
      by blast
    have "confidence s = Finite x" using that(1) x(1) by simp
    from b [OF this x(2-4)] show ?thesis by (rule conjunct2)
  qed
  from a b [of q] c show ?thesis by blast
qed

theorem request_shape_witness:
  "confidence selected_04 = to_double (2 / 5)
   \<and> (1::rat) / 10 \<le> 2 / 5 \<and> (2::rat) / 5 \<le> 9 / 10
   \<and> confidence selected_04 = Finite threshold_04
   \<and> to_double threshold_04 = Finite threshold_04
   \<and> 1 / 10 \<le> threshold_04 \<and> threshold_04 < 1
   \<and> requests (handleDetect (number_toString shortest_example) selected_04
        (Resolved (Response 200 (Inr body_ok)))) =
     [\<lparr>url = ''http://localhost:1000/api/detect'', http_method = ''POST'',
       body = [(''image'', FileEntry sample_file), (''confidence'', TextEntry ''0.4'')],
       headers = []\<rparr>]
   \<and> decimal_value ''0.4'' = Some (2 / 5)
   \<and> decimal_text_of ''0.4'' (Finite threshold_04)
   \<and> confidence selected = Finite (1 / 4)
   \<and> to_double (1 / 4) = Finite (1 / 4)
   \<and> requests (handleDetect (number_toString shortest_example) selected
        (Resolved (Response 200 (Inr body_ok)))) =
     [\<lparr>url = ''http://localhost:1000/api/detect'', http_method = ''POST'',
       body = [(''image'', FileEntry sample_file), (''confidence'', TextEntry ''0.25'')],
       headers = []\<rparr>]
   \<and> decimal_text_of ''0.25'' (Finite (1 / 4))
   \<and> requests (handleDetect (number_toString shortest_example) initial
        (Resolved (Response 200 (Inr body_ok)))) = []"
proof -
  have c: "confidence selected_04 = Finite threshold_04" "confidence selected = Finite (1 / 4)"
    by (simp_all add: selected_04_eq double_04 selected_eq initial_def)
  have f: "selectedFile selected_04 = Some sample_file" "selectedFile selected = Some sample_file"
    "selectedFile initial = None"
    by (simp_all add: selected_04_eq selected_eq initial_def)
  show ?thesis
    using c f threshold_04_double threshold_04_range decimal_value_04 double_025 double_04
      request_shape [of shortest_example selected_04 "Resolved (Response 200 (Inr body_ok))"
        threshold_04 "2 / 5"]
      request_shape [of shortest_example selected "Resolved (Response 200 (Inr body_ok))"
        "1 / 4" "1 / 4"]
      request_shape [of shortest_example initial "Resolved (Response 200 (Inr body_ok))"
        "1 / 4" "1 / 4"]
    by (simp add: number_toString_04 number_toString_025 fraction_count_04 fixed_text_04
        fraction_count_025 fixed_text_025)
qed

section \<open>Result and error together\<close>




section \<open>The rendered results\<close>





end
